theory Spec2Isabelle
  imports Complex_Main "HOL-Library.Sublist"
begin

section \<open>C strings and the libc string functions the sources call\<close>

text \<open>
  A C string (\<^verbatim>\<open>char const *\<close>) is modelled as the list of its characters before the
  terminating NUL, so the end of the list stands for the terminator. A pointer into a
  string is an offset into the list; \<^verbatim>\<open>NULL\<close> is \<open>None\<close>.  Both programs run in the
  "C" locale (neither calls \<^verbatim>\<open>setlocale\<close>), where \<^verbatim>\<open>tolower\<close> and \<^verbatim>\<open>toupper\<close> change
  the 26 ASCII letters only.
\<close>

definition DATA_SEP :: char where
  "DATA_SEP = CHR '',''"

definition NUL :: char where
  "NUL = CHR 0x00"

definition strlen :: "string \<Rightarrow> nat" where
  "strlen s = length s"

text \<open>\<^verbatim>\<open>strchr(s + b, c)\<close>: the offset of the first \<open>c\<close> at or after offset \<open>b\<close>.\<close>

definition strchr :: "string \<Rightarrow> nat \<Rightarrow> char \<Rightarrow> nat option" where
  "strchr s b c =
     (if c \<in> set (drop b s) then Some (b + length (takeWhile (\<lambda>x. x \<noteq> c) (drop b s)))
      else None)"

text \<open>
  \<^verbatim>\<open>strchrnul(s + b, c)\<close>: as \<open>strchr\<close>, but the offset of the terminator when there
  is no \<open>c\<close>.  For \<open>b\<close> beyond the terminator the C function scans memory that is not
  part of the string; the model then answers \<open>b\<close>.  \<open>indexOf\<close> makes such a call once,
  in its last iteration, and never uses the result.
\<close>

definition strchrnul :: "string \<Rightarrow> nat \<Rightarrow> char \<Rightarrow> nat" where
  "strchrnul s b c = b + length (takeWhile (\<lambda>x. x \<noteq> c) (drop b s))"

definition tolower :: "char \<Rightarrow> char" where
  "tolower c =
     (let n = (of_char c :: nat) in if 65 \<le> n \<and> n \<le> 90 then char_of (n + 32) else c)"

definition toupper :: "char \<Rightarrow> char" where
  "toupper c =
     (let n = (of_char c :: nat) in if 97 \<le> n \<and> n \<le> 122 then char_of (n - 32) else c)"

text \<open>The character a pointer reads: the head of the list, or NUL at its end.\<close>

definition peek :: "string \<Rightarrow> char" where
  "peek s = (case s of [] \<Rightarrow> NUL | c # _ \<Rightarrow> c)"

text \<open>\<^verbatim>\<open>strcmp\<close>: the difference of the first two characters that differ.\<close>

fun strcmp :: "string \<Rightarrow> string \<Rightarrow> int" where
  "strcmp [] t = - of_char (peek t)"
| "strcmp (a # s) t =
     (if a \<noteq> peek t then of_char a - of_char (peek t) else strcmp s (tl t))"

text \<open>
  \<^verbatim>\<open>strncasecmp(s1, s2, n)\<close>: compares at most \<open>n\<close> characters, each through
  \<open>tolower\<close>, and stops at a terminator.
\<close>

fun strncasecmp :: "string \<Rightarrow> string \<Rightarrow> nat \<Rightarrow> int" where
  "strncasecmp s1 s2 0 = 0"
| "strncasecmp s1 s2 (Suc n) =
     (let c1 = tolower (peek s1); c2 = tolower (peek s2) in
      if c1 \<noteq> c2 then of_char c1 - of_char c2
      else if peek s1 = NUL then 0
      else strncasecmp (tl s1) (tl s2) n)"

section \<open>Errors\<close>

text \<open>
  \<^verbatim>\<open>die\<close> prints a message and calls \<^verbatim>\<open>exit(1)\<close>; a function that can reach it returns
  \<open>error + 'a\<close> with \<open>Inl\<close> for the abort.  One constructor per \<^verbatim>\<open>die\<close> call of
  \<^verbatim>\<open>main.cc\<close>, and \<open>Undefined\<close> for the places where the C has no defined behaviour.
\<close>

datatype error =
    FieldNotFound        \<comment> \<open>\<^verbatim>\<open>indexOf\<close>: "Field (%s) not found in string", "Field not found in data"\<close>
  | FileIsEmpty          \<comment> \<open>\<^verbatim>\<open>read_until\<close>: "File is empty"\<close>
  | DateFieldNotFound    \<comment> \<open>\<^verbatim>\<open>read_until\<close>: "Date field not found in data"\<close>
  | DateParseFailed      \<comment> \<open>\<^verbatim>\<open>read_until\<close>: "Failed to parse date in file"\<close>
  | OpenFailed           \<comment> \<open>\<^verbatim>\<open>read_stock_data\<close>: "failed to open file"\<close>
  | ParseError           \<comment> \<open>\<^verbatim>\<open>read_stock_data\<close>: "Parsing Adj. Close", "Aborting"\<close>
  | Undefined            \<comment> \<open>undefined behaviour: a null or uninitialised read\<close>

section \<open>The CSV header indexer: \<^verbatim>\<open>indexOf\<close> (main.cc, lines 143-174)\<close>

text \<open>
  The \<^verbatim>\<open>while\<close> loop of lines 157-165 over the pointers \<open>begin\<close> and \<open>end\<close> (offsets into
  \<open>line\<close>) and the counter \<open>index\<close>; the value is \<open>index\<close> when the loop is left,
  by \<^verbatim>\<open>break\<close> or by its condition.  The \<^verbatim>\<open>int\<close> variables \<open>index\<close>, \<open>size\<close> and \<open>nsep\<close>
  never exceed the length of the line, and both callers pass a line read into a
  256-byte buffer: they are natural numbers in the model.
\<close>

function indexOf_loop :: "string \<Rightarrow> string \<Rightarrow> nat \<Rightarrow> nat \<Rightarrow> nat \<Rightarrow> nat \<Rightarrow> nat" where
  "indexOf_loop line field lineEnd begin end index =
     (if begin < lineEnd then
        (let size = end - begin in
         if strncasecmp (drop begin line) field size = 0 then index
         else indexOf_loop line field lineEnd (end + 1)
                (strchrnul line (end + 1) DATA_SEP) (index + 1))
      else index)"
  by pat_completeness auto
termination
  by (relation "measures
        [\<lambda>(line, field, lineEnd, begin, end, index). if begin \<le> end then 0 else 1,
         \<lambda>(line, field, lineEnd, begin, end, index). lineEnd - begin]")
     (auto simp: strchrnul_def)

declare indexOf_loop.simps [simp del]

text \<open>The count of lines 166-170: the number of separators in the line.\<close>

definition nsep :: "string \<Rightarrow> nat" where
  "nsep line = length (filter (\<lambda>c. c = DATA_SEP) line)"

definition indexOf :: "string \<Rightarrow> string \<Rightarrow> error + nat" where
  "indexOf line field =
     (case strchr line 0 DATA_SEP of
        None \<Rightarrow> if strcmp line field = 0 then Inr 0 else Inl FieldNotFound
      | Some e \<Rightarrow>
          (let lineEnd = strlen line;
               index = indexOf_loop line field lineEnd 0 e 0
           in if index > nsep line then Inl FieldNotFound else Inr index))"

section \<open>Streams: \<^verbatim>\<open>FILE\<close>, \<^verbatim>\<open>fgets\<close> and \<^verbatim>\<open>fseek\<close>\<close>

text \<open>
  An open \<^verbatim>\<open>FILE\<close> read in text mode: the bytes of the file and the position of the
  next read.
\<close>

record stream =
  contents :: string
  pos :: nat

text \<open>\<^verbatim>\<open>char buf[256]\<close> in \<^verbatim>\<open>read_until\<close> and \<^verbatim>\<open>read_stock_data\<close>: \<^verbatim>\<open>sizeof buf\<close>.\<close>

definition BUFSIZE :: nat where
  "BUFSIZE = 256"

text \<open>
  The bytes one \<^verbatim>\<open>fgets\<close> call takes from the rest of the file when the buffer has room
  for \<open>n\<close> more characters: up to and including the first newline, at most \<open>n\<close>.
\<close>

fun fgets_chunk :: "nat \<Rightarrow> string \<Rightarrow> string" where
  "fgets_chunk 0 s = []"
| "fgets_chunk (Suc n) [] = []"
| "fgets_chunk (Suc n) (c # s) = (if c = CHR 0x0A then [c] else c # fgets_chunk n s)"

text \<open>The C string that a buffer holding \<open>bytes\<close> and a terminator is: it ends at the first NUL.\<close>

definition c_str :: "string \<Rightarrow> string" where
  "c_str bytes = takeWhile (\<lambda>c. c \<noteq> NUL) bytes"

text \<open>
  \<^verbatim>\<open>fgets(buf, n, file)\<close>: \<open>None\<close> is the null pointer returned at end of file, when
  no character could be read (the buffer then keeps its old contents); otherwise the new
  string in \<open>buf\<close> and the advanced stream.
\<close>

definition fgets :: "nat \<Rightarrow> stream \<Rightarrow> (string \<times> stream) option" where
  "fgets n file =
     (let rest = drop (pos file) (contents file) in
      if rest = [] then None
      else (let chunk = fgets_chunk (n - 1) rest
            in Some (c_str chunk, file\<lparr>pos := pos file + length chunk\<rparr>)))"

text \<open>A successful \<open>fgets\<close> on a 256-byte buffer moves the position forward, within the file.\<close>

lemma fgets_chunk_length: "length (fgets_chunk n s) \<le> length s"
  by (induction n s rule: fgets_chunk.induct) auto

lemma fgets_chunk_nonempty: "s \<noteq> [] \<Longrightarrow> fgets_chunk (Suc n) s \<noteq> []"
  by (cases s) auto

lemma fgets_advances:
  assumes "fgets BUFSIZE file = Some (buf, file')"
  shows "contents file' = contents file" and "pos file < pos file'"
    and "pos file' \<le> length (contents file)" and "file' = file\<lparr>pos := pos file'\<rparr>"
proof -
  let ?rest = "drop (pos file) (contents file)"
  from assms have r: "?rest \<noteq> []"
    and f': "file' = file\<lparr>pos := pos file + length (fgets_chunk 255 ?rest)\<rparr>"
    by (auto simp: fgets_def BUFSIZE_def Let_def split: if_splits)
  from f' show "contents file' = contents file"
    by simp
  from fgets_chunk_nonempty [OF r, of 254] have "0 < length (fgets_chunk 255 ?rest)"
    by simp
  with f' show "pos file < pos file'"
    by simp
  from fgets_chunk_length [of 255 ?rest] r f' show "pos file' \<le> length (contents file)"
    by simp
  from f' show "file' = file\<lparr>pos := pos file'\<rparr>"
    by simp
qed

text \<open>
  The strings that successive \<open>fgets\<close> calls on a 256-byte buffer read from a stream
  until the end of the file: the rows of the file as the two readers see them.
\<close>

function rows :: "stream \<Rightarrow> string list" where
  "rows file =
     (case fgets BUFSIZE file of
        None \<Rightarrow> []
      | Some (buf, file') \<Rightarrow> buf # rows file')"
  by pat_completeness auto
termination
proof (relation "measure (\<lambda>file. length (contents file) - pos file)")
  show "wf (measure (\<lambda>file. length (contents file) - pos file))"
    by simp
next
  fix f f' :: stream and x2 :: "string \<times> stream" and buf :: string
  assume "fgets BUFSIZE f = Some x2" and "(buf, f') = x2"
  then have "fgets BUFSIZE f = Some (buf, f')"
    by simp
  from fgets_advances [OF this]
  show "(f', f) \<in> measure (\<lambda>file. length (contents file) - pos file)"
    by simp
qed

declare rows.simps [simp del]

definition SEEK_SET :: int where
  "SEEK_SET = 0"

definition SEEK_CUR :: int where
  "SEEK_CUR = 1"

definition SEEK_END :: int where
  "SEEK_END = 2"

text \<open>
  \<^verbatim>\<open>int fseek(FILE *stream, long offset, int whence)\<close>: the new stream and the return
  value.  A \<open>whence\<close> other than the three constants, or a negative resulting position,
  fails with \<^verbatim>\<open>EINVAL\<close> (POSIX): the call returns -1 and the position is unchanged.
\<close>

definition fseek :: "stream \<Rightarrow> int \<Rightarrow> int \<Rightarrow> stream \<times> int" where
  "fseek file offset whence =
     (let base = (if whence = SEEK_SET then Some 0
                  else if whence = SEEK_CUR then Some (int (pos file))
                  else if whence = SEEK_END then Some (int (length (contents file)))
                  else None)
      in case base of
           None \<Rightarrow> (file, - 1)
         | Some b \<Rightarrow>
             if b + offset < 0 then (file, - 1)
             else (file\<lparr>pos := nat (b + offset)\<rparr>, 0))"

section \<open>The date-synchronized scanner: \<^verbatim>\<open>read_until\<close> (main.cc, lines 98-136)\<close>

text \<open>
  The two libc calls that turn the text of a date into a \<^verbatim>\<open>time_t\<close>,
  \<^verbatim>\<open>strptime(date, "%Y-%m-%d", &tm)\<close> on a zeroed \<^verbatim>\<open>tm\<close> and then \<^verbatim>\<open>mktime(&tm)\<close>, are a
  parameter of the model: a function from the text at \<open>date\<close> to \<open>None\<close> when
  \<^verbatim>\<open>strptime\<close> returns the null pointer, and to the value of \<^verbatim>\<open>mktime\<close> otherwise.
  What it computes depends on the C library and on the time zone; the theorems hold for
  every such function.
\<close>

type_synonym date_parser = "string \<Rightarrow> int option"

text \<open>
  The \<^verbatim>\<open>for\<close> loop of lines 116-122 (and of lines 66-69): from offset \<open>p\<close>, pass \<open>n\<close>
  separators.  \<open>None\<close> when \<^verbatim>\<open>strchr\<close> returns the null pointer.
\<close>

fun skip_fields :: "string \<Rightarrow> nat \<Rightarrow> nat \<Rightarrow> nat option" where
  "skip_fields buf p 0 = Some p"
| "skip_fields buf p (Suc n) =
     (case strchr buf p DATA_SEP of
        None \<Rightarrow> None
      | Some q \<Rightarrow> skip_fields buf (q + 1) n)"

text \<open>
  Lines 115-127, the body of the \<^verbatim>\<open>while\<close> loop up to \<^verbatim>\<open>mktime\<close>: the date of the row
  in \<open>buf\<close>, or the \<^verbatim>\<open>die\<close> of line 119 or of line 125.
\<close>

definition row_date :: "date_parser \<Rightarrow> nat \<Rightarrow> string \<Rightarrow> error + int" where
  "row_date strptime_mktime date_index buf =
     (case skip_fields buf 0 date_index of
        None \<Rightarrow> Inl DateFieldNotFound
      | Some date \<Rightarrow>
          (case strptime_mktime (drop date buf) of
             None \<Rightarrow> Inl DateParseFailed
           | Some tmp \<Rightarrow> Inr tmp))"

text \<open>
  The \<^verbatim>\<open>while\<close> loop of lines 113-132 and the \<^verbatim>\<open>return 0\<close> after it.  The call of line
  129 is \<^verbatim>\<open>fseek(file, SEEK_CUR, -nread)\<close>: \<^verbatim>\<open>SEEK_CUR\<close> stands where \<^verbatim>\<open>fseek\<close> takes the
  offset and \<^verbatim>\<open>-nread\<close> where it takes \<open>whence\<close>; its return value is not looked at.
\<close>

function read_until_loop ::
  "date_parser \<Rightarrow> nat \<Rightarrow> int \<Rightarrow> stream \<Rightarrow> error + (int \<times> stream)" where
  "read_until_loop strptime_mktime date_index begin file =
     (case fgets BUFSIZE file of
        None \<Rightarrow> Inr (0, file)
      | Some (buf, file') \<Rightarrow>
          (let nread = int (strlen buf) in
           case row_date strptime_mktime date_index buf of
             Inl err \<Rightarrow> Inl err
           | Inr tmp \<Rightarrow>
               if tmp \<ge> begin then Inr (tmp, fst (fseek file' SEEK_CUR (- nread)))
               else read_until_loop strptime_mktime date_index begin file'))"
  by pat_completeness auto
termination
proof (relation "measure (\<lambda>(P, k, b, file). length (contents file) - pos file)")
  show "wf (measure (\<lambda>(P, k, b, file). length (contents file) - pos file))"
    by simp
next
  fix P :: date_parser and k :: nat and b :: int
    and f f' :: stream and x2 :: "string \<times> stream" and buf :: string
  assume "fgets BUFSIZE f = Some x2" and "(buf, f') = x2"
  then have "fgets BUFSIZE f = Some (buf, f')"
    by simp
  from fgets_advances [OF this]
  show "((P, k, b, f'), (P, k, b, f))
      \<in> measure (\<lambda>(P, k, b, file). length (contents file) - pos file)"
    by simp
qed

declare read_until_loop.simps [simp del]

definition read_until :: "date_parser \<Rightarrow> stream \<Rightarrow> int \<Rightarrow> error + (int \<times> stream)" where
  "read_until strptime_mktime file begin =
     (case fgets BUFSIZE file of
        None \<Rightarrow> Inl FileIsEmpty
      | Some (buf, file') \<Rightarrow>
          (case indexOf buf ''date'' of
             Inl err \<Rightarrow> Inl err
           | Inr date_index \<Rightarrow> read_until_loop strptime_mktime date_index begin file'))"

section \<open>The column extractor: \<^verbatim>\<open>read_stock_data\<close> (main.cc, lines 48-81)\<close>

text \<open>
  A \<^verbatim>\<open>double\<close> is modelled by the real number it holds.  \<^verbatim>\<open>strtod(p, &endptr)\<close> is a
  parameter of the model: a function from the text at \<open>p\<close> to the value returned and
  the number of characters converted, \<^verbatim>\<open>endptr - p\<close>.  The theorems hold for every such
  function.
\<close>

type_synonym strtod_fn = "string \<Rightarrow> real \<times> nat"

text \<open>
  Lines 65-75, the body of the \<^verbatim>\<open>while\<close> loop before the \<^verbatim>\<open>push_back\<close>: the price of the
  row in \<open>buf\<close>, or the \<^verbatim>\<open>die\<close> of line 74.  Line 67 does not test the pointer that
  \<^verbatim>\<open>strchr\<close> returns: on a row with fewer than \<open>close_index\<close> separators the C goes on
  from a null pointer.
\<close>

definition row_price :: "strtod_fn \<Rightarrow> nat \<Rightarrow> string \<Rightarrow> error + real" where
  "row_price strtod close_index buf =
     (case skip_fields buf 0 close_index of
        None \<Rightarrow> Inl Undefined
      | Some p \<Rightarrow>
          (let (price, consumed) = strtod (drop p buf) in
           if price = 0 \<and> consumed = 0 then Inl ParseError
           else Inr price))"

text \<open>
  The \<^verbatim>\<open>while\<close> loop of lines 64-77 over the rows of one file.  \<open>prices\<close> is the vector
  the values are pushed to; the buffer is returned because the next file's header read
  may leave it unchanged.
\<close>

function read_rows ::
  "strtod_fn \<Rightarrow> nat \<Rightarrow> stream \<Rightarrow> string \<Rightarrow> real list \<Rightarrow> error + (real list \<times> string \<times> stream)" where
  "read_rows strtod close_index file buf prices =
     (case fgets BUFSIZE file of
        None \<Rightarrow> Inr (prices, buf, file)
      | Some (buf', file') \<Rightarrow>
          (case row_price strtod close_index buf' of
             Inl err \<Rightarrow> Inl err
           | Inr price \<Rightarrow> read_rows strtod close_index file' buf' (prices @ [price])))"
  by pat_completeness auto
termination
proof (relation "measure (\<lambda>(S, k, file, buf, prices). length (contents file) - pos file)")
  show "wf (measure (\<lambda>(S, k, file, buf, prices). length (contents file) - pos file))"
    by simp
next
  fix S :: strtod_fn and k :: nat and f f' :: stream and buf buf' :: string
    and prices :: "real list" and x2 :: "string \<times> stream" and price :: real
  assume "fgets BUFSIZE f = Some x2" and "(buf', f') = x2"
  then have "fgets BUFSIZE f = Some (buf', f')"
    by simp
  from fgets_advances [OF this]
  show "((S, k, f', buf', prices @ [price]), (S, k, f, buf, prices))
      \<in> measure (\<lambda>(S, k, file, buf, prices). length (contents file) - pos file)"
    by simp
qed

declare read_rows.simps [simp del]


text \<open>
  \<^verbatim>\<open>fopen(f, "r")\<close> on a file system that maps a path to the bytes of its file: \<open>None\<close>
  is the null pointer.
\<close>

definition fopen :: "(string \<Rightarrow> string option) \<Rightarrow> string \<Rightarrow> stream option" where
  "fopen fs path = (case fs path of None \<Rightarrow> None | Some bytes \<Rightarrow> Some \<lparr>contents = bytes, pos = 0\<rparr>)"

text \<open>
  Lines 56-78, the body of the \<^verbatim>\<open>for\<close> loop over the file paths, on the variables that
  live across its iterations.  \<open>buf\<close> is \<open>None\<close> while the array is uninitialised; line
  62 does not test what \<^verbatim>\<open>fgets\<close> returns, so on an empty file \<^verbatim>\<open>indexOf\<close> reads what
  the buffer held before.  \<open>prices\<close> and \<open>data\<close> are the two vectors declared before the
  loop (lines 51-52); line 78 appends a copy of \<open>prices\<close> to \<open>data\<close>, and no line empties
  \<open>prices\<close>.
\<close>

definition read_file ::
  "strtod_fn \<Rightarrow> (string \<Rightarrow> string option) \<Rightarrow> string \<Rightarrow> string option \<Rightarrow> real list
     \<Rightarrow> real list list \<Rightarrow> error + (string option \<times> real list \<times> real list list)" where
  "read_file strtod fs fp buf prices data =
     (case fopen fs fp of
        None \<Rightarrow> Inl OpenFailed
      | Some file \<Rightarrow>
          (let (buf, file) = (case fgets BUFSIZE file of
                                None \<Rightarrow> (buf, file)
                              | Some (b, file') \<Rightarrow> (Some b, file'))
           in case buf of
                None \<Rightarrow> Inl Undefined
              | Some header \<Rightarrow>
                  (case indexOf header ''Adj. Close'' of
                     Inl err \<Rightarrow> Inl err
                   | Inr close_index \<Rightarrow>
                       (case read_rows strtod close_index file header prices of
                          Inl err \<Rightarrow> Inl err
                        | Inr (prices, buf, file) \<Rightarrow>
                            Inr (Some buf, prices, data @ [prices])))))"

text \<open>The \<^verbatim>\<open>for\<close> loop of lines 55-79: the variables when the loop is left.\<close>

fun read_files ::
  "strtod_fn \<Rightarrow> (string \<Rightarrow> string option) \<Rightarrow> string list \<Rightarrow> string option \<Rightarrow> real list
     \<Rightarrow> real list list \<Rightarrow> error + (string option \<times> real list \<times> real list list)" where
  "read_files strtod fs [] buf prices data = Inr (buf, prices, data)"
| "read_files strtod fs (fp # fps) buf prices data =
     (case read_file strtod fs fp buf prices data of
        Inl err \<Rightarrow> Inl err
      | Inr (buf, prices, data) \<Rightarrow> read_files strtod fs fps buf prices data)"

text \<open>
  \<^verbatim>\<open>read_stock_data\<close>: the loop from an uninitialised buffer and two empty vectors, and
  the \<^verbatim>\<open>return data\<close> of line 80.
\<close>

definition read_stock_data ::
  "strtod_fn \<Rightarrow> (string \<Rightarrow> string option) \<Rightarrow> string list \<Rightarrow> error + real list list" where
  "read_stock_data strtod fs filepaths =
     (case read_files strtod fs filepaths None [] [] of
        Inl err \<Rightarrow> Inl err
      | Inr (buf, prices, data) \<Rightarrow> Inr data)"

section \<open>Instances of the libc parameters for the worked examples\<close>

definition is_digit :: "char \<Rightarrow> bool" where
  "is_digit c = (let n = (of_char c :: nat) in 48 \<le> n \<and> n \<le> 57)"

definition isspace :: "char \<Rightarrow> bool" where
  "isspace c = (let n = (of_char c :: nat) in n = 32 \<or> (9 \<le> n \<and> n \<le> 13))"

text \<open>The number a string of decimal digits denotes.\<close>

definition dec :: "string \<Rightarrow> nat" where
  "dec ds = foldl (\<lambda>a c. 10 * a + (of_char c - 48)) 0 ds"

text \<open>
  \<open>strtod_dec\<close> does what \<^verbatim>\<open>strtod\<close> does on a text whose number is written with
  digits and at most one decimal point (no exponent, no hexadecimal, no \<^verbatim>\<open>inf\<close> or
  \<^verbatim>\<open>nan\<close>), up to the rounding of the value to a \<^verbatim>\<open>double\<close>: white space is skipped, a
  sign is read, then the longest run of digits with an optional point.  With no digit
  nothing is converted: the value is 0 and \<^verbatim>\<open>endptr\<close> is \<open>p\<close>.
\<close>

definition strtod_dec :: strtod_fn where
  "strtod_dec s =
     (let ws = takeWhile isspace s;
          t = drop (length ws) s;
          sign = (if t \<noteq> [] \<and> (hd t = CHR ''-'' \<or> hd t = CHR ''+'') then [hd t] else []);
          u = drop (length sign) t;
          ip = takeWhile is_digit u;
          v = drop (length ip) u;
          point = (if v \<noteq> [] \<and> hd v = CHR ''.'' then [hd v] else []);
          fp = takeWhile is_digit (drop (length point) v)
      in if ip = [] \<and> fp = [] then (0, 0)
         else
           (let m = real (dec ip) + real (dec fp) / 10 ^ length fp
            in (if sign = ''-'' then - m else m,
                length ws + length sign + length ip + length point + length fp)))"

text \<open>
  Days from 1970-01-01 to the day \<open>d\<close> of month \<open>m\<close> of year \<open>y\<close> in the Gregorian
  calendar.
\<close>

definition days_from_civil :: "int \<Rightarrow> int \<Rightarrow> int \<Rightarrow> int" where
  "days_from_civil y m d =
     (let y' = (if m \<le> 2 then y - 1 else y);
          era = y' div 400;
          yoe = y' - era * 400;
          doy = (153 * (if m > 2 then m - 3 else m + 9) + 2) div 5 + d - 1;
          doe = yoe * 365 + yoe div 4 - yoe div 100 + doy
      in era * 146097 + doe - 719468)"

text \<open>
  \<open>iso_date\<close> does what \<^verbatim>\<open>strptime(s, "%Y-%m-%d", &tm)\<close> and \<^verbatim>\<open>mktime(&tm)\<close> do in the
  time zone UTC on a text that starts with a date written as four digits, \<^verbatim>\<open>-\<close>, two
  digits, \<^verbatim>\<open>-\<close>, two digits (a month 01-12 and a day 01-31): midnight of that day in
  seconds since the epoch.  Every other text it rejects.
\<close>

definition iso_date :: date_parser where
  "iso_date s =
     (if length s \<ge> 10 \<and> list_all is_digit (take 4 s) \<and> s ! 4 = CHR ''-''
         \<and> list_all is_digit (take 2 (drop 5 s)) \<and> s ! 7 = CHR ''-''
         \<and> list_all is_digit (take 2 (drop 8 s))
      then
        (let y = int (dec (take 4 s)); m = int (dec (take 2 (drop 5 s)));
             d = int (dec (take 2 (drop 8 s)))
         in if 1 \<le> m \<and> m \<le> 12 \<and> 1 \<le> d \<and> d \<le> 31
            then Some (days_from_civil y m d * 86400) else None)
      else None)"

section \<open>The URL and filename builders (getstock.cc)\<close>

definition urlbase :: string where
  "urlbase = ''https://www.quandl.com/api/v3/datasets/WIKI/''"

text \<open>
  \<^verbatim>\<open>make_url\<close> (lines 118-133).  The dates are \<^verbatim>\<open>char const *\<close> arguments that may be
  \<^verbatim>\<open>NULL\<close>: \<open>None\<close> is the null pointer, \<open>Some b\<close> a string, which may be empty.
\<close>

definition make_url :: "string \<Rightarrow> string \<Rightarrow> string option \<Rightarrow> string option \<Rightarrow> string" where
  "make_url ticker token begin end =
     (let url = urlbase @ ticker @ ''.csv?order=asc&api_key='' @ token;
          url = (case begin of None \<Rightarrow> url | Some b \<Rightarrow> url @ ''&start_date='' @ b);
          url = (case end of None \<Rightarrow> url | Some e \<Rightarrow> url @ ''&end_date='' @ e)
      in url)"

text \<open>
  \<^verbatim>\<open>make_filename\<close> (lines 139-151).  \<^verbatim>\<open>dbroot.back()\<close> on an empty string has no
  defined behaviour.
\<close>

definition make_filename ::
  "string \<Rightarrow> string \<Rightarrow> string option \<Rightarrow> string option \<Rightarrow> error + string" where
  "make_filename dbroot ticker begin end =
     (if dbroot = [] then Inl Undefined
      else
        (let fname = dbroot;
             fname = (if last dbroot \<noteq> CHR ''/'' then fname @ ''/'' else fname);
             fname = fname @ ticker;
             fname = (case (begin, end) of
                        (Some b, Some e) \<Rightarrow> fname @ ''.'' @ b @ ''.'' @ e
                      | _ \<Rightarrow> fname)
         in Inr (fname @ ''.csv'')))"

text \<open>\<^verbatim>\<open>upper\<close> (lines 103-112): \<^verbatim>\<open>toupper\<close> on every character.\<close>

definition upper :: "string \<Rightarrow> string" where
  "upper s = map toupper s"

section \<open>The fetch pipeline: \<^verbatim>\<open>main\<close> of getstock.cc from line 273\<close>

text \<open>
  Lines 280-282: \<^verbatim>\<open>while (dbroot.size() > 1 && dbroot.back() == '/') dbroot.pop_back();\<close>
\<close>

function pop_slashes :: "string \<Rightarrow> string" where
  "pop_slashes dbroot =
     (if length dbroot > 1 \<and> last dbroot = CHR ''/'' then pop_slashes (butlast dbroot)
      else dbroot)"
  by pat_completeness auto
termination
  by (relation "measure length") auto

declare pop_slashes.simps [simp del]

text \<open>
  One iteration of the loop of lines 286-321, for the command-line word \<open>arg\<close>: the URL
  that is requested and, when an output directory was given, the file the response is
  written to.  The transfer itself and the file system are outside the model.  \<open>begin\<close>
  and \<open>end\<close> are the \<^verbatim>\<open>std::string\<close> variables of \<^verbatim>\<open>main\<close>, empty unless \<^verbatim>\<open>-b\<close> and
  \<^verbatim>\<open>-e\<close> set them; the builders receive \<^verbatim>\<open>begin.c_str()\<close> and \<^verbatim>\<open>end.c_str()\<close>, which
  are never null.
\<close>

definition fetch_one ::
  "string \<Rightarrow> string \<Rightarrow> string \<Rightarrow> string \<Rightarrow> string \<Rightarrow> error + (string \<times> string option)" where
  "fetch_one api_key begin end dbroot arg =
     (let ticker = upper arg;
          url = make_url ticker api_key (Some begin) (Some end)
      in if dbroot \<noteq> [] then
           (case make_filename dbroot ticker (Some begin) (Some end) of
              Inl err \<Rightarrow> Inl err
            | Inr filename \<Rightarrow> Inr (url, Some filename))
         else Inr (url, None))"

fun fetch_loop ::
  "string \<Rightarrow> string \<Rightarrow> string \<Rightarrow> string \<Rightarrow> string list \<Rightarrow> error + (string \<times> string option) list" where
  "fetch_loop api_key begin end dbroot [] = Inr []"
| "fetch_loop api_key begin end dbroot (arg # av) =
     (case fetch_one api_key begin end dbroot arg of
        Inl err \<Rightarrow> Inl err
      | Inr r \<Rightarrow>
          (case fetch_loop api_key begin end dbroot av of
             Inl err \<Rightarrow> Inl err
           | Inr rs \<Rightarrow> Inr (r # rs)))"

text \<open>
  Lines 273-321 on the values the option parser left in \<open>api_key\<close>, \<open>begin\<close>, \<open>end\<close> and
  \<open>dbroot\<close>, and the remaining words \<open>av\<close> (the tickers).  The creation of the output
  directory (\<^verbatim>\<open>database_init\<close>) is outside the model.
\<close>

definition fetch_pipeline ::
  "string \<Rightarrow> string \<Rightarrow> string \<Rightarrow> string \<Rightarrow> string list \<Rightarrow> error + (string \<times> string option) list" where
  "fetch_pipeline api_key begin end dbroot av =
     (let dbroot = (if dbroot \<noteq> [] then pop_slashes dbroot else dbroot)
      in fetch_loop api_key begin end dbroot av)"

section \<open>Notions of the specification\<close>

text \<open>
  The number of occurrences of \<open>pat\<close> in \<open>s\<close>: the positions of \<open>s\<close> at which \<open>pat\<close>
  starts.
\<close>

definition occurrences :: "string \<Rightarrow> string \<Rightarrow> nat" where
  "occurrences pat s = length (filter (\<lambda>i. prefix pat (drop i s)) [0..<Suc (length s)])"

text \<open>A root path without the path separators it ends with.\<close>

definition root_stem :: "string \<Rightarrow> string" where
  "root_stem dbroot = rev (dropWhile (\<lambda>c. c = CHR ''/'') (rev dbroot))"




text \<open>
  The stream of the scanner example of the specification: the header \<^verbatim>\<open>Date,Close\<close>
  and three rows.
\<close>

definition example_stream :: stream where
  "example_stream =
     \<lparr>contents = ''Date,Close\<newline>2018-01-02,10\<newline>2018-01-03,11\<newline>2018-01-05,12\<newline>'', pos = 0\<rparr>"

text \<open>
  The same three rows with the columns exchanged, so that the date is the last field
  of every line, and with a third column after the date.
\<close>

definition date_last_stream :: stream where
  "date_last_stream =
     \<lparr>contents = ''Close,Date\<newline>10,2018-01-02\<newline>11,2018-01-03\<newline>12,2018-01-05\<newline>'', pos = 0\<rparr>"

definition date_middle_stream :: stream where
  "date_middle_stream =
     \<lparr>contents = ''Close,Date,Volume\<newline>10,2018-01-02,5\<newline>11,2018-01-03,6\<newline>12,2018-01-05,7\<newline>'',
      pos = 0\<rparr>"

section \<open>The header indexer: properties\<close>

text \<open>
  C9.  Every offset that \<open>indexOf\<close> returns is at most the number of comma delimiters
  of the header line.
\<close>

theorem indexOf_le_nsep:
  "indexOf line field = Inr k \<Longrightarrow> k \<le> nsep line"
  by (auto simp: indexOf_def Let_def split: option.splits if_splits)

text \<open>The example of the source's comment: \<open>Low\<close> is field 3 of a line with 4 commas.\<close>

theorem indexOf_le_nsep_witness:
  "indexOf ''Date,Open,High,Low,Close'' ''Low'' = Inr 3 \<and> (3::nat) \<le> nsep ''Date,Open,High,Low,Close''"
proof -
  have e: "indexOf ''Date,Open,High,Low,Close'' ''Low'' = Inr 3"
    by code_simp
  from indexOf_le_nsep [OF e] e show ?thesis by simp
qed

text \<open>
  On a header line without a comma \<open>indexOf\<close> succeeds only when the line is the field
  name itself.
\<close>

lemma of_char_eq_0: "(of_char c :: int) = 0 \<longleftrightarrow> c = NUL"
  using of_char_eq_iff [of c NUL, where ?'a = int] by (simp add: NUL_def)

lemma strcmp_eq_0:
  "NUL \<notin> set s \<Longrightarrow> NUL \<notin> set t \<Longrightarrow> strcmp s t = 0 \<longleftrightarrow> s = t"
proof (induction s arbitrary: t)
  case Nil
  then show ?case
    by (cases t) (auto simp: peek_def of_char_eq_0)
next
  case (Cons a s)
  then show ?case
    by (cases t) (auto simp: peek_def of_char_eq_0)
qed

lemma indexOf_no_separator:
  assumes "DATA_SEP \<notin> set line" and "NUL \<notin> set line" and "NUL \<notin> set field"
  shows "indexOf line field = (if line = field then Inr 0 else Inl FieldNotFound)"
  using assms strcmp_eq_0 [of line field]
  by (simp add: indexOf_def strchr_def)

text \<open>
  C7.  On a header line without a comma, line 151 compares with \<^verbatim>\<open>strcmp\<close>: the whole
  line must equal the field name character by character, case included.  A line that
  differs from the field name in letter case only is refused, while the same name as
  a delimited field (compared with \<^verbatim>\<open>strncasecmp\<close>, line 159) is found.
\<close>

theorem indexOf_whole_line_case_sensitive:
  "indexOf ''DATE'' ''date'' = Inl FieldNotFound
   \<and> indexOf ''date'' ''date'' = Inr 0
   \<and> indexOf ''DATE,CLOSE'' ''date'' = Inr 0"
  by code_simp

text \<open>
  On a header line with a comma the result depends on the two arguments only up to
  letter case: the separators stand where they stood, and every field is compared
  through \<open>tolower\<close>.
\<close>

lemma of_char_tolower:
  "(of_char (tolower c) :: nat) =
     (if 65 \<le> (of_char c :: nat) \<and> (of_char c :: nat) \<le> 90 then of_char c + 32 else of_char c)"
  by (simp add: tolower_def Let_def)

lemma tolower_idem: "tolower (tolower c) = tolower c"
proof -
  have "(of_char (tolower (tolower c)) :: nat) = of_char (tolower c)"
    by (simp add: of_char_tolower)
  then show ?thesis
    by (simp only: of_char_eq_iff)
qed

lemma tolower_eq_sep: "tolower c = DATA_SEP \<longleftrightarrow> c = DATA_SEP"
proof -
  have "(of_char (tolower c) :: nat) = 44 \<longleftrightarrow> (of_char c :: nat) = 44"
    by (simp add: of_char_tolower)
  moreover have "(of_char DATA_SEP :: nat) = 44"
    by (simp add: DATA_SEP_def)
  ultimately show ?thesis
    by (metis of_char_eq_iff)
qed

lemma tolower_eq_NUL: "tolower c = NUL \<longleftrightarrow> c = NUL"
proof -
  have "(of_char (tolower c) :: nat) = 0 \<longleftrightarrow> (of_char c :: nat) = 0"
    by (simp add: of_char_tolower)
  moreover have "(of_char NUL :: nat) = 0"
    by (simp add: NUL_def)
  ultimately show ?thesis
    by (metis of_char_eq_iff)
qed

lemma tolower_NUL: "tolower NUL = NUL"
  using tolower_eq_NUL [of NUL] by simp

lemma peek_map_tolower: "peek (map tolower s) = tolower (peek s)"
  by (cases s) (simp_all add: peek_def tolower_NUL)

lemma strncasecmp_tolower:
  "strncasecmp s1 s2 n = strncasecmp (map tolower s1) (map tolower s2) n"
proof (induction n arbitrary: s1 s2)
  case 0
  show ?case by simp
next
  case (Suc n)
  have "tl (map tolower s1) = map tolower (tl s1)" "tl (map tolower s2) = map tolower (tl s2)"
    by (simp_all add: map_tl)
  moreover have "peek s2 = NUL" if "peek s1 = NUL" "tolower (peek s1) = tolower (peek s2)"
    using that tolower_eq_NUL [of "peek s2"] by (simp add: tolower_NUL)
  moreover have "peek s1 = NUL" if "peek s2 = NUL" "tolower (peek s1) = tolower (peek s2)"
    using that tolower_eq_NUL [of "peek s1"] by (simp add: tolower_NUL)
  ultimately show ?case
    using Suc [of "tl s1" "tl s2"]
    by (auto simp: peek_map_tolower tolower_idem tolower_eq_NUL Let_def)
qed

lemma takeWhile_sep_tolower:
  "length (takeWhile (\<lambda>x. x \<noteq> DATA_SEP) (map tolower s)) = length (takeWhile (\<lambda>x. x \<noteq> DATA_SEP) s)"
  by (induction s) (simp_all add: tolower_eq_sep)

lemma strchrnul_tolower: "strchrnul (map tolower s) b DATA_SEP = strchrnul s b DATA_SEP"
  by (simp add: strchrnul_def drop_map takeWhile_sep_tolower)

lemma sep_in_tolower: "DATA_SEP \<in> set (map tolower s) \<longleftrightarrow> DATA_SEP \<in> set s"
proof (induction s)
  case Nil
  show ?case by simp
next
  case (Cons a s)
  have "DATA_SEP = tolower a \<longleftrightarrow> DATA_SEP = a"
    using tolower_eq_sep [of a] by auto
  with Cons show ?case by simp
qed

lemma nsep_tolower: "nsep (map tolower s) = nsep s"
  by (induction s) (simp_all add: nsep_def tolower_eq_sep)

lemma indexOf_loop_tolower:
  "indexOf_loop (map tolower line) (map tolower field) lineEnd b e i = indexOf_loop line field lineEnd b e i"
proof (induction line field lineEnd b e i rule: indexOf_loop.induct)
  case (1 line field lineEnd b e i)
  have c: "strncasecmp (drop b (map tolower line)) (map tolower field) (e - b)
      = strncasecmp (drop b line) field (e - b)"
    using strncasecmp_tolower [of "drop b line" field "e - b"]
      strncasecmp_tolower [of "drop b (map tolower line)" "map tolower field" "e - b"]
    by (simp add: drop_map tolower_idem)
  show ?case
  proof (cases "b < lineEnd \<and> strncasecmp (drop b line) field (e - b) \<noteq> 0")
    case True
    with "1.IH" [OF _ refl] have "indexOf_loop (map tolower line) (map tolower field) lineEnd (e + 1)
        (strchrnul line (e + 1) DATA_SEP) (i + 1)
      = indexOf_loop line field lineEnd (e + 1) (strchrnul line (e + 1) DATA_SEP) (i + 1)"
      by simp
    with True c show ?thesis
      by (subst indexOf_loop.simps, subst (2) indexOf_loop.simps) (simp add: strchrnul_tolower)
  next
    case False
    with c show ?thesis
      by (subst indexOf_loop.simps, subst (2) indexOf_loop.simps) auto
  qed
qed

lemma indexOf_delimited_tolower:
  "DATA_SEP \<in> set line \<Longrightarrow> indexOf (map tolower line) (map tolower field) = indexOf line field"
  using sep_in_tolower [of line]
  by (simp add: indexOf_def nsep_tolower indexOf_loop_tolower strlen_def strchr_def
        takeWhile_sep_tolower)

lemma indexOf_delimited_case_insensitive:
  assumes "DATA_SEP \<in> set line" and "map tolower line = map tolower line'"
    and "map tolower field = map tolower field'"
  shows "indexOf line field = indexOf line' field'"
proof -
  from assms(1,2) sep_in_tolower [of line] sep_in_tolower [of line'] have "DATA_SEP \<in> set line'"
    by simp
  from indexOf_delimited_tolower [OF assms(1), of field] indexOf_delimited_tolower [OF this, of field'] assms(2,3)
  show ?thesis by simp
qed

text \<open>
  C8.  The two calls of the specification's example return 0; on a header line without
  a comma, changing the letter case of the line changes the result.
\<close>

theorem indexOf_case_changes_result:
  "indexOf ''date,close'' ''Date'' = Inr 0
   \<and> indexOf ''DATE,CLOSE'' ''date'' = Inr 0
   \<and> indexOf ''close'' ''close'' = Inr 0
   \<and> indexOf ''CLOSE'' ''close'' = Inl FieldNotFound"
  by code_simp

section \<open>The scanner: properties\<close>

lemma rows_Some: "fgets BUFSIZE f = Some (x, f') \<Longrightarrow> rows f = x # rows f'"
  by (subst rows.simps) simp

lemma rows_None: "fgets BUFSIZE f = None \<Longrightarrow> rows f = []"
  by (subst rows.simps) simp

lemma rows_ConsD:
  assumes "rows f = x # xs"
  obtains f' where "fgets BUFSIZE f = Some (x, f')" and "rows f' = xs"
proof (cases "fgets BUFSIZE f")
  case None
  from rows_None [OF this] assms show ?thesis by simp
next
  case (Some a)
  obtain y f' where a: "a = (y, f')" by (cases a)
  from rows_Some [of f y f'] Some a assms have "y = x" "rows f' = xs"
    by simp_all
  with Some a that show ?thesis by simp
qed

lemma read_until_loop_found:
  assumes "rows f = pre @ r # post"
    and "\<forall>x\<in>set pre. \<exists>d. row_date P k x = Inr d \<and> d < target"
    and "row_date P k r = Inr d" and "target \<le> d"
  shows "\<exists>f'. read_until_loop P k target f = Inr (d, f')"
  using assms(1,2)
proof (induction pre arbitrary: f)
  case Nil
  then have "rows f = r # post" by simp
  then obtain f1 where "fgets BUFSIZE f = Some (r, f1)"
    by (rule rows_ConsD)
  with assms(3,4) show ?case
    by (subst read_until_loop.simps) simp
next
  case (Cons x pre)
  then have "rows f = x # (pre @ r # post)" by simp
  then obtain f1 where g: "fgets BUFSIZE f = Some (x, f1)" and r1: "rows f1 = pre @ r # post"
    by (rule rows_ConsD)
  from Cons.prems(2) obtain dx where dx: "row_date P k x = Inr dx" "dx < target"
    by auto
  from Cons.prems(2) have "\<forall>x\<in>set pre. \<exists>d. row_date P k x = Inr d \<and> d < target"
    by simp
  from Cons.IH [OF r1 this] obtain f' where "read_until_loop P k target f1 = Inr (d, f')" ..
  with g dx show ?case
    by (subst read_until_loop.simps) simp
qed

lemma read_until_loop_not_found:
  assumes "\<forall>x\<in>set (rows f). \<exists>d. row_date P k x = Inr d \<and> d < target"
    and "pos f \<le> length (contents f)"
  shows "read_until_loop P k target f = Inr (0, f\<lparr>pos := length (contents f)\<rparr>)"
  using assms
proof (induction f rule: rows.induct)
  case (1 f)
  show ?case
  proof (cases "fgets BUFSIZE f")
    case None
    then have "drop (pos f) (contents f) = []"
      by (simp add: fgets_def Let_def split: if_splits)
    with "1.prems"(2) have "pos f = length (contents f)"
      by simp
    then have "f\<lparr>pos := length (contents f)\<rparr> = f"
      by simp
    with None show ?thesis
      by (subst read_until_loop.simps) simp
  next
    case (Some a)
    obtain x f1 where a: "a = (x, f1)" by (cases a)
    with Some have g: "fgets BUFSIZE f = Some (x, f1)" by simp
    note adv = fgets_advances [OF g]
    from rows_Some [OF g] "1.prems"(1) obtain dx where dx: "row_date P k x = Inr dx" "dx < target"
      and rest: "\<forall>x\<in>set (rows f1). \<exists>d. row_date P k x = Inr d \<and> d < target"
      by auto
    from adv have le: "pos f1 \<le> length (contents f1)"
      by simp
    from "1.IH" [OF Some a [symmetric] rest le]
    have "read_until_loop P k target f1 = Inr (0, f1\<lparr>pos := length (contents f1)\<rparr>)" .
    moreover from adv(1,4) have "f1\<lparr>pos := length (contents f1)\<rparr> = f\<lparr>pos := length (contents f)\<rparr>"
      by (metis stream.surjective stream.update_convs(2) stream.select_convs(1))
    ultimately show ?thesis
      using g dx by (subst read_until_loop.simps) simp
  qed
qed

text \<open>
  A header whose first field is the date column, in any letter case, resolves to
  column 0.
\<close>

lemma indexOf_date_first:
  assumes "map tolower header = ''date,'' @ rest"
  shows "indexOf header ''date'' = Inr 0"
proof -
  have sep: "DATA_SEP \<in> set (map tolower header)"
    by (simp add: assms DATA_SEP_def)
  then have "DATA_SEP \<in> set header"
    by (simp only: sep_in_tolower)
  from indexOf_delimited_tolower [OF this, of "''date''"]
  have "indexOf header ''date'' = indexOf (''date,'' @ rest) (map tolower ''date'')"
    by (simp only: assms)
  also have "map tolower ''date'' = ''date''"
    by code_simp
  also have "indexOf (''date,'' @ rest) ''date'' = Inr 0"
  proof -
    have c: "strchr (''date,'' @ rest) 0 DATA_SEP = Some 4"
      by (simp add: strchr_def DATA_SEP_def)
    have t: "tolower CHR ''d'' = CHR ''d''" "tolower CHR ''a'' = CHR ''a''"
      "tolower CHR ''t'' = CHR ''t''" "tolower CHR ''e'' = CHR ''e''"
      by code_simp+
    have "strncasecmp (''date,'' @ rest) ''date'' (Suc (Suc (Suc (Suc 0)))) = 0"
      by (simp add: peek_def t NUL_def)
    then have s: "strncasecmp (''date,'' @ rest) ''date'' 4 = 0"
      by (simp add: eval_nat_numeral)
    have "indexOf_loop (''date,'' @ rest) ''date'' (strlen (''date,'' @ rest)) 0 4 0 = 0"
      using s by (subst indexOf_loop.simps) (simp add: strlen_def)
    with c show ?thesis
      by (simp add: indexOf_def)
  qed
  finally show ?thesis .
qed

text \<open>
  What \<open>read_until\<close> does once \<open>indexOf\<close> has resolved the header to a column \<open>k\<close>: when
  some row has a date at or after the target and every row before it has an earlier
  date, it returns the date of that row; when every row has a date before the target,
  it returns 0 without aborting, and the stream is at its end.
\<close>

lemma read_until_on_resolved_header:
  assumes "fgets BUFSIZE file = Some (header, file1)"
    and "indexOf header ''date'' = Inr k"
  shows "(rows file1 = pre @ r # post
            \<and> (\<forall>x\<in>set pre. \<exists>d'. row_date P k x = Inr d' \<and> d' < target)
            \<and> row_date P k r = Inr d \<and> target \<le> d
          \<longrightarrow> (\<exists>file'. read_until P file target = Inr (d, file')))
       \<and> ((\<forall>x\<in>set (rows file1). \<exists>d'. row_date P k x = Inr d' \<and> d' < target)
          \<longrightarrow> read_until P file target = Inr (0, file\<lparr>pos := length (contents file)\<rparr>))"
proof (intro conjI impI)
  assume "rows file1 = pre @ r # post
            \<and> (\<forall>x\<in>set pre. \<exists>d'. row_date P k x = Inr d' \<and> d' < target)
            \<and> row_date P k r = Inr d \<and> target \<le> d"
  then have "\<exists>f'. read_until_loop P k target file1 = Inr (d, f')"
    by (intro read_until_loop_found) auto
  with assms show "\<exists>file'. read_until P file target = Inr (d, file')"
    by (simp add: read_until_def)
next
  assume a: "\<forall>x\<in>set (rows file1). \<exists>d'. row_date P k x = Inr d' \<and> d' < target"
  note adv = fgets_advances [OF assms(1)]
  from adv have "pos file1 \<le> length (contents file1)"
    by simp
  from read_until_loop_not_found [OF a this]
  have "read_until_loop P k target file1 = Inr (0, file1\<lparr>pos := length (contents file1)\<rparr>)" .
  moreover from adv(1,4) have "file1\<lparr>pos := length (contents file1)\<rparr> = file\<lparr>pos := length (contents file)\<rparr>"
    by (metis stream.surjective stream.update_convs(2) stream.select_convs(1))
  ultimately show "read_until P file target = Inr (0, file\<lparr>pos := length (contents file)\<rparr>)"
    using assms by (simp add: read_until_def)
qed

lemma read_until_on_resolved_header_example:
  "(\<exists>file'. read_until iso_date example_stream 1514937600 = Inr (1514937600, file'))
   \<and> read_until iso_date example_stream 1517443200
       = Inr (0, example_stream\<lparr>pos := length (contents example_stream)\<rparr>)"
proof -
  have g: "fgets BUFSIZE example_stream = Some (''Date,Close\<newline>'', example_stream\<lparr>pos := 11\<rparr>)"
    by code_simp
  have i: "indexOf ''Date,Close\<newline>'' ''date'' = Inr 0"
    by code_simp
  have r: "rows (example_stream\<lparr>pos := 11\<rparr>)
      = [''2018-01-02,10\<newline>''] @ ''2018-01-03,11\<newline>'' # [''2018-01-05,12\<newline>'']"
    by code_simp
  have d: "row_date iso_date 0 ''2018-01-02,10\<newline>'' = Inr 1514851200"
    "row_date iso_date 0 ''2018-01-03,11\<newline>'' = Inr 1514937600"
    "row_date iso_date 0 ''2018-01-05,12\<newline>'' = Inr 1515110400"
    by code_simp+
  note t = read_until_on_resolved_header [OF g i, of "[''2018-01-02,10\<newline>'']"
      "''2018-01-03,11\<newline>''" "[''2018-01-05,12\<newline>'']" iso_date _ 1514937600]
  from t [of 1514937600] r d
  have 1: "\<exists>file'. read_until iso_date example_stream 1514937600 = Inr (1514937600, file')"
    by simp
  from t [of 1517443200] r d
  have 2: "read_until iso_date example_stream 1517443200
       = Inr (0, example_stream\<lparr>pos := length (contents example_stream)\<rparr>)"
    by simp
  from 1 2 show ?thesis ..
qed

text \<open>
  C3.  On a stream whose rows are ascending by date and whose date column is the last
  field of the header, \<open>read_until\<close> returns neither the date of the first row at or
  after the target nor 0: \<open>fgets\<close> keeps the newline of the header line, \<open>indexOf\<close>
  compares the last field together with it (lines 158-159, and line 151 when the date
  is the only column), finds no field and aborts.  With the date in a field that a comma
  follows, the same rows give the date of 2018-01-03 for the target 2018-01-03 and 0 at
  the end of the file for the target 2018-02-01.
\<close>

theorem read_until_aborts_when_date_is_last:
  "iso_date ''2018-01-03'' = Some 1514937600 \<and> iso_date ''2018-02-01'' = Some 1517443200
   \<and> fgets BUFSIZE date_last_stream = Some (''Close,Date\<newline>'', date_last_stream\<lparr>pos := 11\<rparr>)
   \<and> indexOf ''Close,Date\<newline>'' ''date'' = Inl FieldNotFound
   \<and> read_until iso_date date_last_stream 1514937600 = Inl FieldNotFound
   \<and> read_until iso_date date_last_stream 1517443200 = Inl FieldNotFound
   \<and> read_until iso_date \<lparr>contents = ''Date\<newline>2018-01-02\<newline>'', pos = 0\<rparr> 1517443200
       = Inl FieldNotFound
   \<and> indexOf ''Close,Date,Volume\<newline>'' ''date'' = Inr 1
   \<and> read_until iso_date date_middle_stream 1514937600
       = Inr (1514937600, date_middle_stream\<lparr>pos := 50\<rparr>)
   \<and> read_until iso_date date_middle_stream 1517443200
       = Inr (0, date_middle_stream\<lparr>pos := length (contents date_middle_stream)\<rparr>)"
  by code_simp

text \<open>
  The call of line 129 always fails: \<^verbatim>\<open>-nread\<close> is negative where \<^verbatim>\<open>fseek\<close> expects one of
  \<^verbatim>\<open>SEEK_SET\<close>, \<^verbatim>\<open>SEEK_CUR\<close>, \<^verbatim>\<open>SEEK_END\<close>.  The row that was just read stays consumed.
\<close>

lemma fseek_swapped_arguments:
  "0 < nread \<Longrightarrow> fseek file SEEK_CUR (- nread) = (file, - 1)"
  by (simp add: fseek_def SEEK_SET_def SEEK_CUR_def SEEK_END_def)

lemma read_until_loop_consumes_row:
  assumes "fgets BUFSIZE f = Some (r, f1)" and "r \<noteq> []"
    and "row_date P k r = Inr d" and "target \<le> d"
  shows "read_until_loop P k target f = Inr (d, f1)"
  using assms fseek_swapped_arguments [of "int (length r)" f1]
  by (subst read_until_loop.simps) (simp add: strlen_def)

text \<open>
  C1.  On the example of the specification, \<open>read_until\<close> for the target 2018-01-03
  returns that date, and the next read from the stream yields the row of 2018-01-05:
  the row of 2018-01-03 is consumed.
\<close>

theorem read_until_consumes_found_row:
  "iso_date ''2018-01-03'' = Some 1514937600
   \<and> read_until iso_date example_stream 1514937600
       = Inr (1514937600, example_stream\<lparr>pos := 39\<rparr>)
   \<and> fgets BUFSIZE (example_stream\<lparr>pos := 39\<rparr>)
       = Some (''2018-01-05,12\<newline>'', example_stream\<lparr>pos := 53\<rparr>)"
  by code_simp

section \<open>The column extractor: properties\<close>












text \<open>
  C2.  The prices of the first file are carried over into the sequence of the second:
  \<open>prices\<close> is never emptied.  And on the header of the claim, where \<^verbatim>\<open>Adj. Close\<close> is the
  last field of a line that ends with a newline, \<open>read_stock_data\<close> aborts in \<open>indexOf\<close>.
\<close>

theorem read_stock_data_carries_prices_over:
  "read_stock_data strtod_dec
      [''JPM.csv'' \<mapsto> ''Date,Adj. Close,Volume\<newline>2018-01-02,10.5,7\<newline>2018-01-03,11,8\<newline>'',
       ''BAC.csv'' \<mapsto> ''Date,Adj. Close,Volume\<newline>2018-01-02,20,9\<newline>'']
      [''JPM.csv'', ''BAC.csv'']
     = Inr [[21 / 2, 11], [21 / 2, 11, 20]]
   \<and> read_stock_data strtod_dec
      [''JPM.csv'' \<mapsto> ''Date,Open,High,Low,Close,Volume,Adj. Close\<newline>2018-01-02,1,2,3,4,5,10.5\<newline>'']
      [''JPM.csv'']
     = Inl FieldNotFound"
  by code_simp


section \<open>The URL builder: properties\<close>

text \<open>A string that starts with a character that \<open>xs\<close> lacks cannot start inside \<open>xs\<close>.\<close>

lemma sublist_skip:
  assumes "c \<notin> set xs" and "sublist (c # p) (xs @ ys)"
  shows "sublist (c # p) ys"
proof -
  from assms(2) obtain pre post where e: "xs @ ys = pre @ (c # p) @ post"
    by (auto simp: sublist_def)
  then consider us where "xs = pre @ us" "us @ ys = (c # p) @ post"
    | us where "xs @ us = pre" "ys = us @ (c # p) @ post"
    by (auto simp: append_eq_append_conv2)
  then show ?thesis
  proof cases
    case 1
    show ?thesis
    proof (cases us)
      case Nil
      with 1 show ?thesis by (auto simp: sublist_def intro: exI [of _ "[]"])
    next
      case (Cons u us')
      with 1 assms(1) show ?thesis by auto
    qed
  next
    case 2
    then show ?thesis by (auto simp: sublist_def)
  qed
qed

lemma make_url_eq:
  "make_url T K b e = urlbase @ T @ ''.csv?order=asc&api_key='' @ K
       @ (case b of None \<Rightarrow> [] | Some x \<Rightarrow> ''&start_date='' @ x)
       @ (case e of None \<Rightarrow> [] | Some y \<Rightarrow> ''&end_date='' @ y)"
  by (simp add: make_url_def split: option.splits)

lemma no_start_in_tail:
  assumes "CHR ''&'' \<notin> set y"
  shows "\<not> sublist ''&start_date='' (''&end_date='' @ y)"
proof
  assume "sublist ''&start_date='' (''&end_date='' @ y)"
  then have "sublist ''&start_date='' (''end_date='' @ y)"
    by (simp add: sublist_Cons_right)
  from sublist_skip [OF _ this] have "sublist ''&start_date='' y"
    by simp
  from sublist_skip [of _ y _ "[]"] this assms show False
    by simp
qed

lemma start_date_iff:
  assumes "CHR ''&'' \<notin> set T" "CHR ''&'' \<notin> set K"
    and "\<And>x. b = Some x \<Longrightarrow> CHR ''&'' \<notin> set x"
    and "\<And>y. e = Some y \<Longrightarrow> CHR ''&'' \<notin> set y"
  shows "sublist ''&start_date='' (make_url T K b e) \<longleftrightarrow> b \<noteq> None"
proof
  assume "b \<noteq> None"
  then obtain x where "b = Some x" by auto
  then show "sublist ''&start_date='' (make_url T K b e)"
    unfolding make_url_eq sublist_def
    by (intro exI [of _ "urlbase @ T @ ''.csv?order=asc&api_key='' @ K"]
          exI [of _ "x @ (case e of None \<Rightarrow> [] | Some y \<Rightarrow> ''&end_date='' @ y)"]) simp
next
  assume s: "sublist ''&start_date='' (make_url T K b e)"
  show "b \<noteq> None"
  proof
    assume b: "b = None"
    let ?E = "case e of None \<Rightarrow> [] | Some y \<Rightarrow> ''&end_date='' @ y"
    from s b have "sublist ''&start_date='' ((urlbase @ T @ ''.csv?order=asc'') @ ''&api_key='' @ K @ ?E)"
      by (simp add: make_url_eq)
    from sublist_skip [OF _ this] assms(1) have "sublist ''&start_date='' (''&api_key='' @ K @ ?E)"
      by (simp add: urlbase_def)
    then have "sublist ''&start_date='' ((''api_key='' @ K) @ ?E)"
      by (simp add: sublist_Cons_right)
    from sublist_skip [OF _ this] assms(2) have "sublist ''&start_date='' ?E"
      by simp
    with no_start_in_tail assms(4) show False
      by (cases e) auto
  qed
qed

lemma no_end_in_start:
  assumes "CHR ''&'' \<notin> set x"
  shows "\<not> sublist ''&end_date='' (''&start_date='' @ x)"
proof
  assume "sublist ''&end_date='' (''&start_date='' @ x)"
  then have "sublist ''&end_date='' (''start_date='' @ x)"
    by (simp add: sublist_Cons_right)
  from sublist_skip [OF _ this] have "sublist ''&end_date='' x"
    by simp
  from sublist_skip [of _ x _ "[]"] this assms show False
    by simp
qed

lemma end_date_iff:
  assumes "CHR ''&'' \<notin> set T" "CHR ''&'' \<notin> set K"
    and "\<And>x. b = Some x \<Longrightarrow> CHR ''&'' \<notin> set x"
  shows "sublist ''&end_date='' (make_url T K b e) \<longleftrightarrow> e \<noteq> None"
proof
  assume "e \<noteq> None"
  then obtain y where "e = Some y" by auto
  then show "sublist ''&end_date='' (make_url T K b e)"
    unfolding make_url_eq sublist_def
    by (intro exI [of _ "urlbase @ T @ ''.csv?order=asc&api_key='' @ K
                          @ (case b of None \<Rightarrow> [] | Some x \<Rightarrow> ''&start_date='' @ x)"]
          exI [of _ y]) simp
next
  assume s: "sublist ''&end_date='' (make_url T K b e)"
  show "e \<noteq> None"
  proof
    assume e: "e = None"
    let ?S = "case b of None \<Rightarrow> [] | Some x \<Rightarrow> ''&start_date='' @ x"
    from s e have "sublist ''&end_date='' ((urlbase @ T @ ''.csv?order=asc'') @ ''&api_key='' @ K @ ?S)"
      by (simp add: make_url_eq)
    from sublist_skip [OF _ this] assms(1) have "sublist ''&end_date='' (''&api_key='' @ K @ ?S)"
      by (simp add: urlbase_def)
    then have "sublist ''&end_date='' ((''api_key='' @ K) @ ?S)"
      by (simp add: sublist_Cons_right)
    from sublist_skip [OF _ this] assms(2) have "sublist ''&end_date='' ?S"
      by simp
    with no_end_in_start assms(3) show False
      by (cases b) auto
  qed
qed

text \<open>
  C4, as stated, fails: the ticker \<open>K\<close> occurs twice in its URL, once in the base
  endpoint (\<^verbatim>\<open>WIKI\<close>) and once where \<open>make_url\<close> puts it.
\<close>

theorem make_url_ticker_occurs_twice:
  "make_url ''K'' ''abc123'' None None
     = ''https://www.quandl.com/api/v3/datasets/WIKI/K.csv?order=asc&api_key=abc123''
   \<and> occurrences ''K'' (make_url ''K'' ''abc123'' None None) = 2"
  by code_simp

text \<open>
  C4, amended.  The URL is the base endpoint, the ticker, \<^verbatim>\<open>.csv?order=asc&api_key=\<close>,
  the token, then \<^verbatim>\<open>&start_date=\<close> and the begin date if one was supplied, then
  \<^verbatim>\<open>&end_date=\<close> and the end date if one was supplied: the builder writes the ticker
  and the token once each.  When none of the four arguments contains \<^verbatim>\<open>&\<close>, the URL
  contains \<^verbatim>\<open>&start_date=\<close> iff the begin date was supplied and \<^verbatim>\<open>&end_date=\<close> iff the
  end date was supplied.
\<close>

theorem make_url_structure:
  "make_url T K b e = urlbase @ T @ ''.csv?order=asc&api_key='' @ K
       @ (case b of None \<Rightarrow> [] | Some x \<Rightarrow> ''&start_date='' @ x)
       @ (case e of None \<Rightarrow> [] | Some y \<Rightarrow> ''&end_date='' @ y)
   \<and> (CHR ''&'' \<notin> set T \<union> set K \<union> set (case b of None \<Rightarrow> [] | Some x \<Rightarrow> x)
                    \<union> set (case e of None \<Rightarrow> [] | Some y \<Rightarrow> y) \<longrightarrow>
        (sublist ''&start_date='' (make_url T K b e) \<longleftrightarrow> b \<noteq> None)
      \<and> (sublist ''&end_date='' (make_url T K b e) \<longleftrightarrow> e \<noteq> None))"
proof (intro conjI impI)
  show "make_url T K b e = urlbase @ T @ ''.csv?order=asc&api_key='' @ K
       @ (case b of None \<Rightarrow> [] | Some x \<Rightarrow> ''&start_date='' @ x)
       @ (case e of None \<Rightarrow> [] | Some y \<Rightarrow> ''&end_date='' @ y)"
    by (rule make_url_eq)
next
  assume h: "CHR ''&'' \<notin> set T \<union> set K \<union> set (case b of None \<Rightarrow> [] | Some x \<Rightarrow> x)
                    \<union> set (case e of None \<Rightarrow> [] | Some y \<Rightarrow> y)"
  then have t: "CHR ''&'' \<notin> set T" and k: "CHR ''&'' \<notin> set K"
    and b: "\<And>x. b = Some x \<Longrightarrow> CHR ''&'' \<notin> set x"
    and e: "\<And>y. e = Some y \<Longrightarrow> CHR ''&'' \<notin> set y"
    by auto
  from start_date_iff [OF t k b e]
  show "sublist ''&start_date='' (make_url T K b e) \<longleftrightarrow> b \<noteq> None"
    by simp
next
  assume h: "CHR ''&'' \<notin> set T \<union> set K \<union> set (case b of None \<Rightarrow> [] | Some x \<Rightarrow> x)
                    \<union> set (case e of None \<Rightarrow> [] | Some y \<Rightarrow> y)"
  then have t: "CHR ''&'' \<notin> set T" and k: "CHR ''&'' \<notin> set K"
    and b: "\<And>x. b = Some x \<Longrightarrow> CHR ''&'' \<notin> set x"
    by auto
  from end_date_iff [OF t k b]
  show "sublist ''&end_date='' (make_url T K b e) \<longleftrightarrow> e \<noteq> None"
    by simp
qed

theorem make_url_structure_witness:
  "make_url ''JPM'' ''abc123'' (Some ''2018-01-01'') None =
      ''https://www.quandl.com/api/v3/datasets/WIKI/JPM.csv?order=asc&api_key=abc123&start_date=2018-01-01''
   \<and> sublist ''&start_date='' (make_url ''JPM'' ''abc123'' (Some ''2018-01-01'') None)
   \<and> \<not> sublist ''&end_date='' (make_url ''JPM'' ''abc123'' (Some ''2018-01-01'') None)"
proof -
  note s = make_url_structure [of "''JPM''" "''abc123''" "Some ''2018-01-01''" None]
  from s have 1: "make_url ''JPM'' ''abc123'' (Some ''2018-01-01'') None =
      ''https://www.quandl.com/api/v3/datasets/WIKI/JPM.csv?order=asc&api_key=abc123&start_date=2018-01-01''"
    by (simp add: urlbase_def)
  have h: "CHR ''&'' \<notin> set ''JPM'' \<union> set ''abc123''
      \<union> set (case Some ''2018-01-01'' of None \<Rightarrow> [] | Some x \<Rightarrow> x)
      \<union> set (case None of None \<Rightarrow> [] | Some y \<Rightarrow> y)"
    by simp
  from s h have 2: "sublist ''&start_date='' (make_url ''JPM'' ''abc123'' (Some ''2018-01-01'') None)"
    and 3: "\<not> sublist ''&end_date='' (make_url ''JPM'' ''abc123'' (Some ''2018-01-01'') None)"
    by blast+
  from 1 2 3 show ?thesis
    by (intro conjI)
qed

section \<open>The filename builder: properties\<close>

lemma with_separator:
  assumes "dbroot \<noteq> []" and "\<not> suffix ''//'' dbroot"
  shows "(if last dbroot = CHR ''/'' then dbroot else dbroot @ ''/'') = root_stem dbroot @ ''/''"
proof (cases dbroot rule: rev_cases)
  case Nil
  with assms(1) show ?thesis by simp
next
  case (snoc ys c)
  show ?thesis
  proof (cases "c = CHR ''/''")
    case False
    with snoc show ?thesis by (simp add: root_stem_def)
  next
    case True
    show ?thesis
    proof (cases ys rule: rev_cases)
      case Nil
      with snoc True show ?thesis by (simp add: root_stem_def)
    next
      case (snoc zs d)
      with \<open>dbroot = ys @ [c]\<close> True assms(2) have "d \<noteq> CHR ''/''"
        by (auto simp: suffix_def)
      with snoc \<open>dbroot = ys @ [c]\<close> True show ?thesis by (simp add: root_stem_def)
    qed
  qed
qed

text \<open>
  C6, as stated, fails: a root that ends with two separators keeps both, so two
  separators stand between \<open>data\<close> and the ticker.
\<close>

theorem make_filename_keeps_slashes:
  "make_filename ''data//'' ''JPM'' None None = Inr ''data//JPM.csv''
   \<and> root_stem ''data//'' @ ''/'' @ ''JPM'' @ ''.csv'' = ''data/JPM.csv''
   \<and> make_filename ''data//'' ''JPM'' None None
       \<noteq> Inr (root_stem ''data//'' @ ''/'' @ ''JPM'' @ ''.csv'')"
  by code_simp

text \<open>
  C6, amended.  For a non-empty root, \<open>make_filename\<close> appends a separator iff the root
  does not end with one, then the ticker, then \<^verbatim>\<open>.csv\<close> when the dates are absent and
  \<^verbatim>\<open>.b.e.csv\<close> when both are present.  So when the root ends with at most one
  separator, exactly one separator stands between the root (without it) and the ticker.
\<close>

theorem make_filename_one_separator:
  assumes "dbroot \<noteq> []"
  shows "make_filename dbroot T None None
           = Inr ((if last dbroot = CHR ''/'' then dbroot else dbroot @ ''/'') @ T @ ''.csv'')
       \<and> make_filename dbroot T (Some b) (Some e)
           = Inr ((if last dbroot = CHR ''/'' then dbroot else dbroot @ ''/'')
                  @ T @ ''.'' @ b @ ''.'' @ e @ ''.csv'')
       \<and> (\<not> suffix ''//'' dbroot \<longrightarrow>
            make_filename dbroot T None None = Inr (root_stem dbroot @ ''/'' @ T @ ''.csv'')
          \<and> make_filename dbroot T (Some b) (Some e)
              = Inr (root_stem dbroot @ ''/'' @ T @ ''.'' @ b @ ''.'' @ e @ ''.csv''))"
proof -
  define sep where "sep = (if last dbroot = CHR ''/'' then dbroot else dbroot @ ''/'')"
  have g: "make_filename dbroot T None None = Inr (sep @ T @ ''.csv'')"
    "make_filename dbroot T (Some b) (Some e) = Inr (sep @ T @ ''.'' @ b @ ''.'' @ e @ ''.csv'')"
    using assms by (simp_all add: make_filename_def sep_def)
  have "sep = root_stem dbroot @ ''/''" if "\<not> suffix ''//'' dbroot"
    unfolding sep_def using assms that by (rule with_separator)
  with g show ?thesis
    unfolding sep_def [symmetric] by simp
qed


theorem make_filename_one_separator_witness:
  "make_filename ''data/'' ''JPM'' None None = Inr ''data/JPM.csv''
   \<and> make_filename ''data'' ''JPM'' (Some ''2018-01-01'') (Some ''2018-04-01'')
       = Inr ''data/JPM.2018-01-01.2018-04-01.csv''
   \<and> make_filename ''data//'' ''JPM'' (Some ''2018-01-01'') (Some ''2018-04-01'')
       = Inr ''data//JPM.2018-01-01.2018-04-01.csv''"
proof -
  have r: "root_stem ''data/'' = ''data''" "root_stem ''data'' = ''data''"
    "\<not> suffix ''//'' ''data/''" "\<not> suffix ''//'' ''data''"
    by code_simp+
  have n: "''data/'' \<noteq> []" "''data'' \<noteq> []" "''data//'' \<noteq> []"
    by simp_all
  from make_filename_one_separator [OF n(1), of "''JPM''" "[]" "[]"]
       make_filename_one_separator [OF n(2), of "''JPM''" "''2018-01-01''" "''2018-04-01''"]
       make_filename_one_separator [OF n(3), of "''JPM''" "''2018-01-01''" "''2018-04-01''"]
  show ?thesis
    by (simp add: r)
qed


section \<open>The fetch pipeline: properties\<close>

lemma pop_slashes_nonempty: "dbroot \<noteq> [] \<Longrightarrow> pop_slashes dbroot \<noteq> []"
proof (induction dbroot rule: pop_slashes.induct)
  case (1 dbroot)
  show ?case
  proof (cases "length dbroot > 1 \<and> last dbroot = CHR ''/''")
    case True
    then have "butlast dbroot \<noteq> []"
      by (cases dbroot rule: rev_cases) auto
    with 1 True show ?thesis
      by (subst pop_slashes.simps) simp
  next
    case False
    with 1 show ?thesis
      by (subst pop_slashes.simps) auto
  qed
qed

lemma pop_slashes_last:
  "last (pop_slashes dbroot) = CHR ''/'' \<Longrightarrow> length (pop_slashes dbroot) \<le> 1"
proof (induction dbroot rule: pop_slashes.induct)
  case (1 dbroot)
  show ?case
  proof (cases "length dbroot > 1 \<and> last dbroot = CHR ''/''")
    case True
    with 1 show ?thesis
      by (subst pop_slashes.simps, subst (asm) (2) pop_slashes.simps) simp
  next
    case False
    with 1 show ?thesis
      by (subst pop_slashes.simps, subst (asm) (2) pop_slashes.simps) auto
  qed
qed

lemma pop_slashes_sep:
  assumes "dbroot \<noteq> []"
  shows "(if last (pop_slashes dbroot) = CHR ''/'' then pop_slashes dbroot
          else pop_slashes dbroot @ ''/'')
       = (if pop_slashes dbroot = ''/'' then ''/'' else pop_slashes dbroot @ ''/'')"
proof (cases "last (pop_slashes dbroot) = CHR ''/''")
  case True
  from pop_slashes_last [OF True] pop_slashes_nonempty [OF assms] True
  have "pop_slashes dbroot = ''/''"
    by (cases "pop_slashes dbroot") auto
  then show ?thesis by simp
next
  case False
  then have "pop_slashes dbroot \<noteq> ''/''"
    by auto
  with False show ?thesis by simp
qed

lemma fetch_loop_map:
  "(\<And>arg. arg \<in> set av \<Longrightarrow> fetch_one k b e d arg = Inr (g arg))
   \<Longrightarrow> fetch_loop k b e d av = Inr (map g av)"
  by (induction av) auto

text \<open>
  C10.  Run with no begin and no end date, the pipeline still passes the two empty
  strings to the builders: every URL ends with \<^verbatim>\<open>&start_date=&end_date=\<close>, and every
  file name is the root, a separator, the ticker and \<^verbatim>\<open>...csv\<close>.
\<close>

theorem fetch_pipeline_no_dates:
  "fetch_pipeline api_key [] [] dbroot av =
     Inr (map (\<lambda>arg.
            (urlbase @ upper arg @ ''.csv?order=asc&api_key='' @ api_key @ ''&start_date=&end_date='',
             if dbroot = [] then None
             else Some ((if pop_slashes dbroot = ''/'' then ''/'' else pop_slashes dbroot @ ''/'')
                        @ upper arg @ ''...csv''))) av)"
proof (cases "dbroot = []")
  case True
  have "fetch_one api_key [] [] [] arg =
      Inr (urlbase @ upper arg @ ''.csv?order=asc&api_key='' @ api_key @ ''&start_date=&end_date='', None)"
    for arg
    by (simp add: fetch_one_def make_url_def)
  from fetch_loop_map [of av api_key "[]" "[]" "[]", OF this] True show ?thesis
    by (simp add: fetch_pipeline_def)
next
  case False
  let ?r = "pop_slashes dbroot"
  from pop_slashes_nonempty [OF False] have ne: "?r \<noteq> []" .
  have "fetch_one api_key [] [] ?r arg =
      Inr (urlbase @ upper arg @ ''.csv?order=asc&api_key='' @ api_key @ ''&start_date=&end_date='',
           Some ((if ?r = ''/'' then ''/'' else ?r @ ''/'') @ upper arg @ ''...csv''))"
    for arg
  proof -
    have "make_filename ?r (upper arg) (Some []) (Some [])
        = Inr ((if last ?r = CHR ''/'' then ?r else ?r @ ''/'') @ upper arg @ ''...csv'')"
      using ne by (simp add: make_filename_def)
    then have "make_filename ?r (upper arg) (Some []) (Some [])
        = Inr ((if ?r = ''/'' then ''/'' else ?r @ ''/'') @ upper arg @ ''...csv'')"
      by (simp only: pop_slashes_sep [OF False])
    with ne show ?thesis
      by (simp add: fetch_one_def make_url_def Let_def)
  qed
  from fetch_loop_map [of av api_key "[]" "[]" ?r, OF this] False show ?thesis
    by (simp add: fetch_pipeline_def)
qed

theorem fetch_pipeline_no_dates_witness:
  "fetch_pipeline ''key'' [] [] ''data/'' [''jpm'', ''k''] =
     Inr [(''https://www.quandl.com/api/v3/datasets/WIKI/JPM.csv?order=asc&api_key=key&start_date=&end_date='',
           Some ''data/JPM...csv''),
          (''https://www.quandl.com/api/v3/datasets/WIKI/K.csv?order=asc&api_key=key&start_date=&end_date='',
           Some ''data/K...csv'')]"
proof -
  have u: "upper ''jpm'' = ''JPM''" "upper ''k'' = ''K''" "pop_slashes ''data/'' = ''data''"
    by code_simp+
  from fetch_pipeline_no_dates [of "''key''" "''data/''" "[''jpm'', ''k'']"] show ?thesis
    by (simp add: u urlbase_def)
qed

end
